theory Spec2Isabelle
  imports Main "HOL-Library.AList"
begin

section \<open>JavaScript values and objects\<close>

text \<open>
  A producer is what a resolver constructs its instance with: a class constructor or a
  factory function of the source. Both receive the container's cradle (a proxy that
  resolves a name when a property is read) and return the instance. The producers of the
  repository read some properties of the cradle while they run
  (\<^verbatim>\<open>this.usersRepository = dependencies.usersRepository\<close>,
  \<^verbatim>\<open>new Pool(config.db)\<close>) and may throw (\<^verbatim>\<open>generateConfig\<close> on an invalid
  environment), so a producer is described by the names it reads, in order, and by
  whether it throws after reading them. A class or function may also carry resolver
  options of its own, under the library's \<^verbatim>\<open>RESOLVER\<close> symbol
  (\<^verbatim>\<open>Type[RESOLVER] = { lifetime: ... }\<close>); \<open>None\<close> is a producer without them, as
  the classes and factories of the repository are.

  A value is a primitive, an array of strings, a producer, one of the library's builder
  functions (known by its name) or a reference to an object of the store.
\<close>

type_synonym addr = nat

datatype producer =
    Producer (reads: "string list") (throws: bool) (RESOLVER: "(string \<times> jsval) list option")
and jsval =
    Undefined
  | Bool bool
  | Num int
  | Str string
  | StrArr "string list"
  | Fun producer
  | Builder string
  | Ref addr

text \<open>
  An object is the list of its own enumerable properties in insertion order, which is the
  order of \<^verbatim>\<open>Object.entries\<close>. \<^const>\<open>map_of\<close> reads a property and
  \<^const>\<open>AList.update\<close> assigns one: an existing key keeps its position, a new key goes
  to the end.
\<close>

type_synonym obj = "(string \<times> jsval) list"

text \<open>\<^verbatim>\<open>{ ...x }\<close> for an optional object: spreading \<^verbatim>\<open>undefined\<close> adds nothing.\<close>

fun spread :: "obj option \<Rightarrow> obj" where
  "spread None = []"
| "spread (Some x) = x"

section \<open>The HTTP error handler (infrastructure/errors/errorHandler.ts)\<close>

text \<open>
  The fields of an \<^verbatim>\<open>Error\<close> that the handler reads (\<^verbatim>\<open>name\<close>, \<^verbatim>\<open>message\<close>
  and \<^verbatim>\<open>stack\<close> carry a prefix here). \<^verbatim>\<open>httpStatusCode\<close> and \<^verbatim>\<open>details\<close> are
  optional: \<open>None\<close> is \<^verbatim>\<open>undefined\<close>.
\<close>

record js_error =
  error_name :: string
  error_message :: string
  error_stack :: string
  errorCode :: string
  httpStatusCode :: "int option"
  details :: "obj option"

record payload =
  p_message :: string
  p_errorCode :: string
  p_details :: "obj option"

record ResponseObject =
  statusCode :: int
  payload :: payload

text \<open>
  The type guards \<^verbatim>\<open>isPublicNonRecoverableError\<close> and \<^verbatim>\<open>isInternalError\<close> are
  imported from \<^verbatim>\<open>PublicNonRecoverableError.ts\<close> and \<^verbatim>\<open>InternalError.ts\<close>; the handler
  only calls them, so every function below takes them as parameters.
\<close>

type_synonym guard = "js_error \<Rightarrow> bool"

definition resolveResponseObject :: "guard \<Rightarrow> js_error \<Rightarrow> ResponseObject" where
  "resolveResponseObject isPublicNonRecoverableError error =
     (if isPublicNonRecoverableError error then
        \<lparr> statusCode = (case httpStatusCode error of Some c \<Rightarrow> c | None \<Rightarrow> 500),
          payload = \<lparr> p_message = error_message error,
                      p_errorCode = errorCode error,
                      p_details = details error \<rparr> \<rparr>
      else
        \<lparr> statusCode = 500,
          payload = \<lparr> p_message = ''Internal server error'',
                      p_errorCode = ''INTERNAL_SERVER_ERROR'',
                      p_details = None \<rparr> \<rparr>)"

text \<open>
  What is logged. The serialisers (\<^verbatim>\<open>JSON.stringify\<close>, \<^verbatim>\<open>pino.stdSerializers.err\<close>)
  are kept symbolic: a log object records which fields of the error were handed to them.
\<close>

datatype log_object =
    InternalLog (l_msg: string) (l_code: string) (l_details: "obj option")
                (l_err_name: string) (l_err_message: string) (l_err_stack: string)
  | PlainLog (l_message: string) (l_error: js_error)

definition resolveLogObject :: "guard \<Rightarrow> js_error \<Rightarrow> log_object" where
  "resolveLogObject isInternalError error =
     (if isInternalError error then
        InternalLog (error_message error) (errorCode error) (details error)
                    (error_name error) (error_message error) (error_stack error)
      else PlainLog (error_message error) error)"

text \<open>
  The handler's effects: one entry on the request's logger, one more on the instance's
  logger for an internal error, then the status and the body of the reply.
\<close>

record handler_state =
  request_log :: "log_object list"
  app_log :: "(js_error \<times> string) list"
  reply_status :: "int option"
  reply_sent :: "payload option"

definition errorHandler :: "guard \<Rightarrow> guard \<Rightarrow> js_error \<Rightarrow> handler_state \<Rightarrow> handler_state" where
  "errorHandler isPublicNonRecoverableError isInternalError error s =
     (let logObject = resolveLogObject isInternalError error;
          s1 = s\<lparr> request_log := request_log s @ [logObject] \<rparr>;
          s2 = (if isInternalError error
                then s1\<lparr> app_log := app_log s1 @ [(error, error_message error)] \<rparr>
                else s1);
          responseObject = resolveResponseObject isPublicNonRecoverableError error
      in s2\<lparr> reply_status := Some (statusCode responseObject),
              reply_sent := Some (payload responseObject) \<rparr>)"

section \<open>Resolver helpers (infrastructure/diCommon.ts)\<close>

definition CONTROLLER_TAG :: string where
  "CONTROLLER_TAG = ''controller''"

text \<open>
  \<^verbatim>\<open>Object.assign(target, source)\<close>: the properties of the source are assigned to the
  target one after the other. An object has each key once; a list that repeats a key is read
  by \<^const>\<open>map_of\<close> as the object of its first entries, and \<^const>\<open>AList.clearjunk\<close>
  keeps just those.
\<close>

definition object_assign :: "obj \<Rightarrow> obj \<Rightarrow> obj" where
  "object_assign target source =
     fold (\<lambda>(k, v). AList.update k v) (AList.clearjunk source) target"

text \<open>
  \<^verbatim>\<open>asClass\<close> and \<^verbatim>\<open>asFunction\<close> are the builders of the awilix library, which
  the helpers of the repository call. The library merges its default lifetime, then the
  options it is given, then the options that the producer itself carries under
  \<^verbatim>\<open>RESOLVER\<close>, so the producer's own options come last
  (\<^verbatim>\<open>makeOptions(defaults, opts, Type[RESOLVER])\<close>). The resolver object holds the merged
  options and the function that runs the producer under \<^verbatim>\<open>resolve\<close>
  (\<^verbatim>\<open>{ ...opts, resolve }\<close> for a class, \<^verbatim>\<open>{ resolve, ...opts }\<close> for a function),
  and after them the library's builder methods, which are own properties of the object.
\<close>

definition makeOptions :: "obj \<Rightarrow> obj \<Rightarrow> obj option \<Rightarrow> obj" where
  "makeOptions defaults opts inline =
     object_assign (object_assign (object_assign [] defaults) opts) (spread inline)"

definition createBuildResolver :: "obj \<Rightarrow> obj" where
  "createBuildResolver r =
     object_assign r
       [ (''setLifetime'', Builder ''setLifetime''),
         (''inject'', Builder ''inject''),
         (''transient'', Builder ''transient''),
         (''scoped'', Builder ''scoped''),
         (''singleton'', Builder ''singleton''),
         (''setInjectionMode'', Builder ''setInjectionMode''),
         (''proxy'', Builder ''proxy''),
         (''classic'', Builder ''classic'') ]"

definition createDisposableResolver :: "obj \<Rightarrow> obj" where
  "createDisposableResolver r = object_assign r [(''disposer'', Builder ''disposer'')]"

definition asClass :: "producer \<Rightarrow> obj \<Rightarrow> obj" where
  "asClass Type opts =
     createDisposableResolver (createBuildResolver
       (AList.update ''resolve'' (Fun Type)
          (makeOptions [(''lifetime'', Str ''TRANSIENT'')] opts (RESOLVER Type))))"

definition asFunction :: "producer \<Rightarrow> obj \<Rightarrow> obj" where
  "asFunction fn opts =
     createDisposableResolver (createBuildResolver
       (object_assign [(''resolve'', Fun fn)]
          (makeOptions [(''lifetime'', Str ''TRANSIENT'')] opts (RESOLVER fn))))"

text \<open>The three helpers of the repository.\<close>

definition asSingletonClass :: "producer \<Rightarrow> obj option \<Rightarrow> obj" where
  "asSingletonClass Type opts =
     asClass Type (AList.update ''lifetime'' (Str ''SINGLETON'') (spread opts))"

definition asControllerClass :: "producer \<Rightarrow> obj option \<Rightarrow> obj" where
  "asControllerClass Type opts =
     asClass Type
       (AList.update ''lifetime'' (Str ''SINGLETON'')
         (AList.update ''tags'' (StrArr [CONTROLLER_TAG]) (spread opts)))"

definition asSingletonFunction :: "producer \<Rightarrow> obj option \<Rightarrow> obj" where
  "asSingletonFunction fn opts =
     asFunction fn (AList.update ''lifetime'' (Str ''SINGLETON'') (spread opts))"

section \<open>The heap and the container\<close>

text \<open>
  Objects live in a store; an address is an index into it and a new object goes to the
  end. Reading an address that holds no object gives the empty object, which is also what
  spreading a value that is not an object yields.
\<close>

definition deref :: "obj list \<Rightarrow> addr \<Rightarrow> obj" where
  "deref h a = (if a < length h then h ! a else [])"

text \<open>
  Modelled from the spec: the lifetime caches, which the container library keeps and the
  sources never touch. The singleton cache is keyed by name, the scoped cache by scope and
  name; a scope is a number, and \<open>None\<close> stands for a resolution outside any scope.
\<close>

datatype cache_key = SingletonKey string | ScopedKey "nat option" string

text \<open>
  The state of the one container that \<^verbatim>\<open>startApp\<close> creates, together with the store:
  \<open>registrations\<close> binds each registered name to the address of its resolver object,
  \<open>cache\<close> holds the instances kept by the lifetime policies, in construction order,
  and \<open>constructions\<close> is the record of every instance a producer has returned, with
  the name it was built for, in construction order (the spec's section 4.4 keeps such a record
  of the singletons; here it has every construction, so that a second one would show).
\<close>

record world =
  heap :: "obj list"
  registrations :: "(string \<times> addr) list"
  cache :: "(cache_key \<times> addr) list"
  constructions :: "(string \<times> addr) list"

text \<open>
  \<^verbatim>\<open>createContainer({ injectionMode: "PROXY" })\<close>: nothing registered, nothing cached,
  nothing constructed.
\<close>

definition createContainer :: "obj list \<Rightarrow> world" where
  "createContainer h = \<lparr> heap = h, registrations = [], cache = [], constructions = [] \<rparr>"

text \<open>
  \<^verbatim>\<open>diContainer.register(key, resolver)\<close> is the library's: on the container created
  above it assigns \<^verbatim>\<open>registrations[key] = resolver\<close> and returns. It stores the
  reference it is given and looks at nothing else.
\<close>

definition register :: "string \<Rightarrow> addr \<Rightarrow> world \<Rightarrow> world" where
  "register key resolver w = w\<lparr> registrations := AList.update key resolver (registrations w) \<rparr>"

text \<open>
  \<^verbatim>\<open>registerDependencies(diContainer, resolvers)\<close>: for each entry of \<^verbatim>\<open>resolvers\<close>,
  in the order of \<^verbatim>\<open>Object.entries\<close>, a new object \<^verbatim>\<open>{ ...(_dependencyValue) }\<close> is
  created and registered under the entry's key.
\<close>

fun registerDependencies :: "world \<Rightarrow> (string \<times> addr) list \<Rightarrow> world" where
  "registerDependencies w [] = w"
| "registerDependencies w ((dependencyKey, dv) # rest) =
     (let dependencyValue = length (heap w);
          w1 = w\<lparr> heap := heap w @ [spread (Some (deref (heap w) dv))] \<rparr>
      in registerDependencies (register dependencyKey dependencyValue w1) rest)"

text \<open>
  An object literal whose property values are new objects: each value is put into the
  store and the literal's entries refer to them.
\<close>

definition alloc_all :: "obj list \<Rightarrow> (string \<times> obj) list \<Rightarrow> (string \<times> addr) list \<times> obj list" where
  "alloc_all h kvs = (zip (map fst kvs) [length h ..< length h + length kvs], h @ map snd kvs)"

section \<open>The registrations of the application\<close>

text \<open>
  \<^verbatim>\<open>resolveCoreDependencies(app)\<close> (infrastructure/coreDiConfig.ts). The factories of
  \<^verbatim>\<open>tsRestServer\<close> and \<^verbatim>\<open>awilixManager\<close> read nothing from the cradle; that of
  \<^verbatim>\<open>config\<close> reads nothing and throws when the environment does not parse; that of
  \<^verbatim>\<open>database\<close> destructures \<^verbatim>\<open>config\<close>. None of them is given options.
\<close>

definition resolveCoreDependencies :: "bool \<Rightarrow> (string \<times> obj) list" where
  "resolveCoreDependencies env_invalid =
     [ (''tsRestServer'', asSingletonFunction (Producer [] False None) None),
       (''awilixManager'', asSingletonFunction (Producer [] False None) None),
       (''config'', asSingletonFunction (Producer [] env_invalid None) None),
       (''database'', asSingletonFunction (Producer [''config''] False None) None) ]"

text \<open>
  \<^verbatim>\<open>resolveUserDependencies()\<close> (modules/users/usersDiConfig.ts), with the constructors
  of \<^verbatim>\<open>UsersController\<close>, \<^verbatim>\<open>UsersRepository\<close> and \<^verbatim>\<open>UsersService\<close>.
\<close>

definition UsersController :: producer where
  "UsersController = Producer [''usersService'', ''tsRestServer''] False None"

definition UsersRepository :: producer where
  "UsersRepository = Producer [''database''] False None"

definition UsersService :: producer where
  "UsersService = Producer [''usersRepository''] False None"

definition resolveUserDependencies :: "(string \<times> obj) list" where
  "resolveUserDependencies =
     [ (''usersController'', asControllerClass UsersController None),
       (''usersRepository'', asSingletonClass UsersRepository None),
       (''usersService'', asSingletonClass UsersService None) ]"

text \<open>
  The two type-level name sets of the users module: what it registers and what it
  publishes to other modules. They are TypeScript types; no value of the program holds
  them.
\<close>

definition UsersModuleDependencies :: "string list" where
  "UsersModuleDependencies = [''usersController'', ''usersService'', ''usersRepository'']"

definition UsersModulePublicDependencies :: "string list" where
  "UsersModulePublicDependencies = filter (\<lambda>k. k = ''usersService'') UsersModuleDependencies"

text \<open>
  The part of \<^verbatim>\<open>startApp\<close> that builds the container: the core resolvers are registered,
  then the users module plugin registers its own.
\<close>

definition startApp :: "bool \<Rightarrow> world" where
  "startApp env_invalid =
     (let diContainer = createContainer [];
          (coreResolvers, h1) = alloc_all (heap diContainer) (resolveCoreDependencies env_invalid);
          w1 = registerDependencies (diContainer\<lparr> heap := h1 \<rparr>) coreResolvers;
          (userDependencies, h2) = alloc_all (heap w1) resolveUserDependencies
      in registerDependencies (w1\<lparr> heap := h2 \<rparr>) userDependencies)"

text \<open>Every registered name refers to an object of the store.\<close>

definition wf_world :: "world \<Rightarrow> bool" where
  "wf_world w = list_all (\<lambda>(k, a). a < length (heap w)) (registrations w)"


section \<open>Resolution\<close>

text \<open>
  Modelled from the spec: the container's \<^verbatim>\<open>resolve\<close>, its lifetime caches and the
  tag lookup are the work of the awilix container and of \<^verbatim>\<open>awilixManager.getWithTags\<close>,
  which the sources call but do not contain. The definitions of this section follow the
  spec's sections 4.2 (Lifetime Manager) and 4.3 (Resolver), over the resolver objects that the
  helpers above build.
\<close>

datatype lifetime = Singleton | Scoped | Transient

text \<open>
  Modelled from the spec: a descriptor's lifetime is one of \<^verbatim>\<open>Singleton\<close>,
  \<^verbatim>\<open>Scoped\<close>, \<^verbatim>\<open>Transient\<close>; it is read from the resolver's \<^verbatim>\<open>lifetime\<close> entry.
\<close>

definition lifetime_of :: "obj \<Rightarrow> lifetime" where
  "lifetime_of d =
     (case map_of d ''lifetime'' of
        Some (Str s) \<Rightarrow>
          if s = ''SINGLETON'' then Singleton else if s = ''SCOPED'' then Scoped else Transient
      | _ \<Rightarrow> Transient)"

text \<open>
  Modelled from the spec: a descriptor's producer and its tags, read from the resolver's
  \<^verbatim>\<open>resolve\<close> and \<^verbatim>\<open>tags\<close> entries.
\<close>

definition producer_of :: "obj \<Rightarrow> producer option" where
  "producer_of d = (case map_of d ''resolve'' of Some (Fun p) \<Rightarrow> Some p | _ \<Rightarrow> None)"


text \<open>Modelled from the spec: the failures of a resolution (section 7).\<close>

datatype resolve_error =
    UnknownDependencyError string
  | CircularDependencyError "string list"
  | FactoryError string

text \<open>
  Modelled from the spec: the singleton cache is keyed by name, the scoped cache by scope
  and name, and a transient instance is never cached.
\<close>

fun cache_key_of :: "lifetime \<Rightarrow> nat option \<Rightarrow> string \<Rightarrow> cache_key option" where
  "cache_key_of Singleton scope n = Some (SingletonKey n)"
| "cache_key_of Scoped scope n = Some (ScopedKey scope n)"
| "cache_key_of Transient scope n = None"

text \<open>
  Modelled from the spec: the instance that the lifetime policy keeps for a name, if any.
\<close>

definition cached :: "lifetime \<Rightarrow> nat option \<Rightarrow> string \<Rightarrow> world \<Rightarrow> addr option" where
  "cached l scope n st =
     (case cache_key_of l scope n of None \<Rightarrow> None | Some key \<Rightarrow> map_of (cache st) key)"

text \<open>
  Modelled from the spec: a successful construction puts the new instance into the store,
  at the end of the record of constructions and, unless the lifetime is transient, at the
  end of the cache.
\<close>

definition construct :: "lifetime \<Rightarrow> nat option \<Rightarrow> string \<Rightarrow> obj \<Rightarrow> world \<Rightarrow> addr \<times> world" where
  "construct l scope n instance st =
     (let a = length (heap st)
      in (a, st\<lparr> heap := heap st @ [instance],
                  cache := (case cache_key_of l scope n of
                              None \<Rightarrow> cache st
                            | Some key \<Rightarrow> cache st @ [(key, a)]),
                  constructions := constructions st @ [(n, a)] \<rparr>))"

text \<open>
  Modelled from the spec: \<^verbatim>\<open>resolve(name)\<close> looks the descriptor up and fails with
  \<^verbatim>\<open>UnknownDependencyError\<close> if there is none; a name that is still under construction
  in the current chain is a \<^verbatim>\<open>CircularDependencyError\<close> carrying the chain; a cached
  instance is returned as it is; otherwise the producer runs, each name it reads being
  resolved in turn through the resolution view, and its instance is cached according to the
  lifetime. A producer that throws gives \<^verbatim>\<open>FactoryError\<close> and nothing is cached for
  it; a failure of one of its reads is passed on unchanged. The instance of a producer is
  an object holding what it read. The descriptors are those of the container at the time of
  the call; a resolution registers nothing.
\<close>

function resolve_in ::
    "(string \<times> obj) list \<Rightarrow> nat option \<Rightarrow> string list \<Rightarrow> string \<Rightarrow> world
       \<Rightarrow> (resolve_error + addr) \<times> world"
  and resolve_reads ::
    "(string \<times> obj) list \<Rightarrow> nat option \<Rightarrow> string list \<Rightarrow> string list \<Rightarrow> world
       \<Rightarrow> (resolve_error + addr list) \<times> world"
where
  "resolve_in reg scope under_construction n st =
     (case map_of reg n of
        None \<Rightarrow> (Inl (UnknownDependencyError n), st)
      | Some d \<Rightarrow>
          if n \<in> set under_construction
          then (Inl (CircularDependencyError (rev (n # under_construction))), st)
          else
            (case cached (lifetime_of d) scope n st of
               Some v \<Rightarrow> (Inr v, st)
             | None \<Rightarrow>
                 (case producer_of d of
                    None \<Rightarrow> (Inl (FactoryError n), st)
                  | Some p \<Rightarrow>
                      (case resolve_reads reg scope (n # under_construction) (reads p) st of
                         (Inl e, st') \<Rightarrow> (Inl e, st')
                       | (Inr vs, st') \<Rightarrow>
                           if throws p then (Inl (FactoryError n), st')
                           else (case construct (lifetime_of d) scope n
                                        (zip (reads p) (map Ref vs)) st' of
                                   (a, st'') \<Rightarrow> (Inr a, st''))))))"
| "resolve_reads reg scope under_construction [] st = (Inr [], st)"
| "resolve_reads reg scope under_construction (n # ns) st =
     (case resolve_in reg scope under_construction n st of
        (Inl e, st') \<Rightarrow> (Inl e, st')
      | (Inr v, st') \<Rightarrow>
          (case resolve_reads reg scope under_construction ns st' of
             (Inl e, st'') \<Rightarrow> (Inl e, st'')
           | (Inr vs, st'') \<Rightarrow> (Inr (v # vs), st'')))"
  by pat_completeness auto

termination
proof (relation "inv_image (less_than <*lex*> less_than)
           (\<lambda>x. case x of
                   Inl (reg, scope, uc, n, st) \<Rightarrow> (card (fst ` set reg - set uc), 0)
                 | Inr (reg, scope, uc, ns, st) \<Rightarrow> (card (fst ` set reg - set uc), Suc (length ns)))",
       goal_cases)
  case 1
  show ?case by (intro wf_inv_image wf_lex_prod wf_less_than)
next
  case (2 reg scope uc n st d p)
  from \<open>map_of reg n = Some d\<close> have "n \<in> fst ` set reg"
    by (metis map_of_eq_None_iff option.distinct(1))
  with \<open>n \<notin> set uc\<close>
  have "card (fst ` set reg - set (n # uc)) < card (fst ` set reg - set uc)"
    by (intro psubset_card_mono) auto
  then show ?case by (simp only: in_inv_image sum.case prod.case in_lex_prod less_than_iff) simp
next
  case 3
  then show ?case by simp
next
  case 4
  then show ?case by simp
qed

text \<open>
  The name a cache key stands for, and two relations that the proofs below rest on. The
  first is between the state before and after a resolution: nothing is registered, the
  store, the cache and the record of constructions only grow at the end, and nothing is
  built or cached for a name that is still under construction. The second says of a state
  that, for every singleton name, the record of constructions has at most one entry and
  the cache holds exactly the recorded instance.
\<close>

fun key_name :: "cache_key \<Rightarrow> string" where
  "key_name (SingletonKey n) = n"
| "key_name (ScopedKey scope n) = n"

definition extends :: "string list \<Rightarrow> world \<Rightarrow> world \<Rightarrow> bool" where
  "extends under_construction st st' \<longleftrightarrow>
     registrations st' = registrations st \<and>
     (\<exists>hn cn ln. heap st' = heap st @ hn \<and> cache st' = cache st @ cn \<and>
                 constructions st' = constructions st @ ln \<and>
                 (\<forall>key \<in> fst ` set cn. key_name key \<notin> set under_construction) \<and>
                 (\<forall>m \<in> fst ` set ln. m \<notin> set under_construction))"

definition built_once :: "(string \<times> obj) list \<Rightarrow> world \<Rightarrow> bool" where
  "built_once reg st \<longleftrightarrow>
     (\<forall>n d. map_of reg n = Some d \<and> lifetime_of d = Singleton \<longrightarrow>
        length (filter (\<lambda>e. fst e = n) (constructions st)) \<le> 1 \<and>
        (\<forall>a. (n, a) \<in> set (constructions st) \<longleftrightarrow> map_of (cache st) (SingletonKey n) = Some a))"

text \<open>The descriptors of a container: each registered name with its resolver object.\<close>

definition descriptors :: "world \<Rightarrow> (string \<times> obj) list" where
  "descriptors w = map (\<lambda>(k, a). (k, deref (heap w) a)) (registrations w)"

text \<open>
  Modelled from the spec: \<^verbatim>\<open>resolve(name)\<close> as a caller sees it, in a scope or in none,
  starting a new resolution chain.
\<close>

definition resolve :: "world \<Rightarrow> nat option \<Rightarrow> string \<Rightarrow> (resolve_error + addr) \<times> world" where
  "resolve w scope n = resolve_in (descriptors w) scope [] n w"

text \<open>
  Modelled from the spec: any sequence of resolutions by callers, one after the other,
  whatever each one returns.
\<close>

fun resolve_many :: "world \<Rightarrow> (nat option \<times> string) list \<Rightarrow> world" where
  "resolve_many w [] = w"
| "resolve_many w ((scope, n) # qs) = resolve_many (snd (resolve w scope n)) qs"




section \<open>The options of a resolver\<close>

lemma map_of_fold_update_distinct:
  "distinct (map fst s) \<Longrightarrow>
   map_of (fold (\<lambda>(k, v). AList.update k v) s t) k =
     (case map_of s k of None \<Rightarrow> map_of t k | Some v \<Rightarrow> Some v)"
proof (induction s arbitrary: t)
  case Nil
  then show ?case by simp
next
  case (Cons x s)
  obtain k' v' where x: "x = (k', v')" by (cases x)
  with Cons.prems have "map_of s k' = None" by (simp add: map_of_eq_None_iff)
  with Cons x show ?case by (auto simp: update_conv' split: option.splits)
qed

lemma map_of_object_assign:
  "map_of (object_assign target source) k =
     (case map_of source k of None \<Rightarrow> map_of target k | Some v \<Rightarrow> Some v)"
  unfolding object_assign_def
  by (simp add: map_of_fold_update_distinct distinct_clearjunk map_of_clearjunk)

lemma map_of_makeOptions:
  "map_of (makeOptions defaults opts inline) k =
     (case map_of (spread inline) k of
        Some v \<Rightarrow> Some v
      | None \<Rightarrow> (case map_of opts k of
                   Some v \<Rightarrow> Some v
                 | None \<Rightarrow> map_of defaults k))"
  by (simp add: makeOptions_def map_of_object_assign split: option.splits)

lemma map_of_asClass_lifetime:
  "map_of (asClass Type opts) ''lifetime'' =
     map_of (makeOptions [(''lifetime'', Str ''TRANSIENT'')] opts (RESOLVER Type)) ''lifetime''"
  by (simp add: asClass_def createDisposableResolver_def createBuildResolver_def
        map_of_object_assign update_conv')

lemma map_of_asClass_tags:
  "map_of (asClass Type opts) ''tags'' =
     map_of (makeOptions [(''lifetime'', Str ''TRANSIENT'')] opts (RESOLVER Type)) ''tags''"
  by (simp add: asClass_def createDisposableResolver_def createBuildResolver_def
        map_of_object_assign update_conv')

lemma map_of_asFunction_lifetime:
  "map_of (asFunction fn opts) ''lifetime'' =
     map_of (makeOptions [(''lifetime'', Str ''TRANSIENT'')] opts (RESOLVER fn)) ''lifetime''"
  by (simp add: asFunction_def createDisposableResolver_def createBuildResolver_def
        map_of_object_assign split: option.splits)

lemma helper_lifetime:
  "map_of (asSingletonClass P opts) ''lifetime'' =
     (case map_of (spread (RESOLVER P)) ''lifetime'' of None \<Rightarrow> Some (Str ''SINGLETON'') | Some v \<Rightarrow> Some v)"
  "map_of (asControllerClass P opts) ''lifetime'' =
     (case map_of (spread (RESOLVER P)) ''lifetime'' of None \<Rightarrow> Some (Str ''SINGLETON'') | Some v \<Rightarrow> Some v)"
  "map_of (asSingletonFunction P opts) ''lifetime'' =
     (case map_of (spread (RESOLVER P)) ''lifetime'' of None \<Rightarrow> Some (Str ''SINGLETON'') | Some v \<Rightarrow> Some v)"
  by (simp_all add: asSingletonClass_def asControllerClass_def asSingletonFunction_def
        map_of_asClass_lifetime map_of_asFunction_lifetime map_of_makeOptions update_conv'
        split: option.splits)

lemma helper_tags:
  "map_of (asControllerClass P opts) ''tags'' =
     (case map_of (spread (RESOLVER P)) ''tags'' of None \<Rightarrow> Some (StrArr [CONTROLLER_TAG]) | Some v \<Rightarrow> Some v)"
  by (simp add: asControllerClass_def map_of_asClass_tags map_of_makeOptions update_conv'
        split: option.splits)

section \<open>Registration: what \<open>registerDependencies\<close> does to the store and the registry\<close>






lemma registrations_registerDependencies:
  "registrations (registerDependencies w rs) =
     AList.updates (map fst rs) [length (heap w) ..< length (heap w) + length rs] (registrations w)"
proof (induction rs arbitrary: w)
  case Nil
  then show ?case by simp
next
  case (Cons r rs)
  obtain k a where r: "r = (k, a)" by (cases r)
  let ?w1 = "register k (length (heap w)) (w\<lparr>heap := heap w @ [deref (heap w) a]\<rparr>)"
  have h1: "length (heap ?w1) = Suc (length (heap w))" by (simp add: register_def)
  have r1: "registrations ?w1 = AList.update k (length (heap w)) (registrations w)"
    by (simp add: register_def)
  have "[length (heap w) ..< length (heap w) + length (r # rs)] =
        length (heap w) # [Suc (length (heap w)) ..< Suc (length (heap w)) + length rs]"
    by (simp add: upt_rec)
  then show ?case using Cons.IH [of ?w1] r h1 r1 by (simp add: Let_def)
qed

lemma cache_registerDependencies: "cache (registerDependencies w rs) = cache w"
  by (induction rs arbitrary: w) (auto simp: Let_def register_def)

lemma map_upds_nth:
  "distinct ks \<Longrightarrow> length ks = length vs \<Longrightarrow> i < length ks \<Longrightarrow>
   (m(ks [\<mapsto>] vs)) (ks ! i) = Some (vs ! i)"
proof (induction ks arbitrary: vs i m)
  case Nil
  then show ?case by simp
next
  case (Cons k ks)
  then obtain v vs' where vs: "vs = v # vs'" by (cases vs) auto
  show ?case
  proof (cases i)
    case 0
    with Cons.prems vs show ?thesis by simp
  next
    case (Suc j)
    from Cons.prems vs Suc have "((m(k \<mapsto> v))(ks [\<mapsto>] vs')) (ks ! j) = Some (vs' ! j)"
      by (intro Cons.IH) auto
    then show ?thesis by (simp only: vs Suc map_upds_Cons nth_Cons_Suc)
  qed
qed

lemma registered_copy:
  assumes "distinct (map fst rs)" and "i < length rs"
  shows "map_of (registrations (registerDependencies w rs)) (fst (rs ! i)) = Some (length (heap w) + i)"
proof -
  have "((map_of (registrations w))(map fst rs [\<mapsto>] [length (heap w) ..< length (heap w) + length rs]))
          (map fst rs ! i) = Some ([length (heap w) ..< length (heap w) + length rs] ! i)"
    using assms by (intro map_upds_nth) auto
  with assms show ?thesis
    by (simp add: registrations_registerDependencies updates_conv')
qed

lemma registered_other:
  "k \<notin> fst ` set rs \<Longrightarrow>
   map_of (registrations (registerDependencies w rs)) k = map_of (registrations w) k"
  by (simp add: registrations_registerDependencies updates_conv')

lemma keys_updates:
  "length ks = length vs \<Longrightarrow> fst ` set (AList.updates ks vs al) = fst ` set al \<union> set ks"
proof (induction ks arbitrary: vs al)
  case Nil
  then show ?case by simp
next
  case (Cons k ks)
  then obtain v vs' where vs: "vs = v # vs'" by (cases vs) auto
  have "fst ` set (AList.update k v al) = insert k (fst ` set al)"
    using update_keys [of k v al] by (auto simp flip: set_map)
  with Cons vs show ?case by auto
qed

lemma keys_registerDependencies:
  "fst ` set (registrations (registerDependencies w rs)) = fst ` set (registrations w) \<union> fst ` set rs"
  by (simp add: registrations_registerDependencies keys_updates)




text \<open>
  Claim C3, as the code has it. \<^verbatim>\<open>registerDependencies\<close> makes no check for an existing
  name: each supplied key is bound to the copy of the supplied resolver whether or not the
  container already holds the key, every other name keeps its registration, and each name
  stays bound to one resolver.
\<close>

theorem registerDependencies_rebinds_existing_keys:
  assumes "distinct (map fst rs)" and "distinct (map fst (registrations w))"
  shows "distinct (map fst (registrations (registerDependencies w rs))) \<and>
         (\<forall>i<length rs. map_of (registrations (registerDependencies w rs)) (fst (rs ! i)) =
                           Some (length (heap w) + i)) \<and>
         (\<forall>k. k \<notin> fst ` set rs \<longrightarrow>
               map_of (registrations (registerDependencies w rs)) k = map_of (registrations w) k)"
proof (intro conjI allI impI)
  show "distinct (map fst (registrations (registerDependencies w rs)))"
    using assms(2) by (simp add: registrations_registerDependencies distinct_updates)
next
  fix i assume "i < length rs"
  with assms(1) show "map_of (registrations (registerDependencies w rs)) (fst (rs ! i)) =
                        Some (length (heap w) + i)"
    by (rule registered_copy)
next
  fix k assume "k \<notin> fst ` set rs"
  then show "map_of (registrations (registerDependencies w rs)) k = map_of (registrations w) k"
    by (rule registered_other)
qed

theorem registerDependencies_rebinds_existing_keys_witness:
  "distinct (map fst [(''config'', 1 :: nat)]) \<and>
   distinct (map fst (registrations (register ''config'' 0
      (createContainer [asSingletonFunction (Producer [] False None) None,
                        asSingletonFunction (Producer [] True None) None])))) \<and>
   map_of (registrations (register ''config'' 0
      (createContainer [asSingletonFunction (Producer [] False None) None,
                        asSingletonFunction (Producer [] True None) None]))) ''config'' = Some 0 \<and>
   map_of (registrations (registerDependencies (register ''config'' 0
      (createContainer [asSingletonFunction (Producer [] False None) None,
                        asSingletonFunction (Producer [] True None) None])) [(''config'', 1)])) ''config'' = Some 2"
proof -
  let ?w = "register ''config'' 0
      (createContainer [asSingletonFunction (Producer [] False None) None,
                        asSingletonFunction (Producer [] True None) None])"
  let ?rs = "[(''config'', 1 :: nat)]"
  have d1: "distinct (map fst ?rs)" by simp
  have d2: "distinct (map fst (registrations ?w))" by (simp add: register_def createContainer_def)
  have old: "map_of (registrations ?w) ''config'' = Some 0" by (simp add: register_def createContainer_def)
  have len: "length (heap ?w) = 2" by (simp add: register_def createContainer_def)
  have i0: "0 < length ?rs" by simp
  have e: "fst (?rs ! 0) = ''config''" by simp
  note t = registerDependencies_rebinds_existing_keys
             [OF d1 d2, THEN conjunct2, THEN conjunct1, rule_format, of 0, OF i0]
  then have "map_of (registrations (registerDependencies ?w ?rs)) ''config'' = Some 2"
    by (simp only: e len add_0_right)
  with d1 d2 old show ?thesis by (intro conjI)
qed

text \<open>
  Claim C3, as stated, fails: the container that \<^verbatim>\<open>startApp\<close> builds holds
  \<^verbatim>\<open>config\<close>; registering another resolver under \<^verbatim>\<open>config\<close> returns normally and
  the name is bound to the new copy, with as many registrations as before.
\<close>

theorem duplicate_key_counterexample:
  "map_of (registrations (startApp False)) ''config'' = Some 6 \<and>
   map_of (registrations (registerDependencies (startApp False) [(''config'', 3)])) ''config'' = Some 14 \<and>
   deref (heap (registerDependencies (startApp False) [(''config'', 3)])) 14 = deref (heap (startApp False)) 3 \<and>
   deref (heap (startApp False)) 3 \<noteq> deref (heap (startApp False)) 6 \<and>
   length (registrations (registerDependencies (startApp False) [(''config'', 3)])) =
     length (registrations (startApp False))"
  by code_simp

text \<open>
  Claim C4, as the code has it. \<^verbatim>\<open>registerDependencies\<close> is given no owning module, no
  declared dependencies and no export flags, and checks no boundary: every supplied key is
  registered afterwards, and the registry it leaves is fixed by the registry before, the
  size of the store and the supplied keys, whatever the resolvers contain or read.
\<close>

theorem registerDependencies_checks_no_boundary:
  "fst ` set (registrations (registerDependencies w rs)) =
     fst ` set (registrations w) \<union> fst ` set rs \<and>
   (registrations w = registrations w2 \<and> length (heap w) = length (heap w2) \<and>
    map fst rs = map fst rs2 \<longrightarrow>
      registrations (registerDependencies w rs) = registrations (registerDependencies w2 rs2))"
proof (intro conjI impI)
  show "fst ` set (registrations (registerDependencies w rs)) =
          fst ` set (registrations w) \<union> fst ` set rs"
    by (rule keys_registerDependencies)
next
  assume a: "registrations w = registrations w2 \<and> length (heap w) = length (heap w2) \<and>
             map fst rs = map fst rs2"
  then have "length rs = length rs2" by (metis length_map)
  with a show "registrations (registerDependencies w rs) = registrations (registerDependencies w2 rs2)"
    by (simp add: registrations_registerDependencies)
qed

theorem registerDependencies_checks_no_boundary_witness:
  "registrations (registerDependencies
       (createContainer [asSingletonClass (Producer [''usersRepository''] False None) None])
       [(''ordersService'', 0)]) =
   registrations (registerDependencies
       (createContainer [asSingletonClass (Producer [''usersService''] False None) None])
       [(''ordersService'', 0)])"
proof -
  let ?w = "createContainer [asSingletonClass (Producer [''usersRepository''] False None) None]"
  let ?w2 = "createContainer [asSingletonClass (Producer [''usersService''] False None) None]"
  let ?rs = "[(''ordersService'', 0 :: nat)]"
  have h: "registrations ?w = registrations ?w2 \<and> length (heap ?w) = length (heap ?w2) \<and>
        map fst ?rs = map fst ?rs"
    by (simp add: createContainer_def)
  show ?thesis
    by (rule registerDependencies_checks_no_boundary
               [of ?w ?rs ?w2 ?rs, THEN conjunct2, rule_format, OF h])
qed

text \<open>
  Claim C4, as stated, fails: \<^verbatim>\<open>usersRepository\<close> belongs to the users module and is not
  among its public dependencies; a resolver of another module whose constructor reads it is
  registered on the container of \<^verbatim>\<open>startApp\<close> all the same, and stays registered.
\<close>

theorem boundary_counterexample:
  "''usersRepository'' \<in> set UsersModuleDependencies \<and>
   ''usersRepository'' \<notin> set UsersModulePublicDependencies \<and>
   map_of (registrations (startApp False)) ''ordersService'' = None \<and>
   map_of (registrations
     (registerDependencies
       ((startApp False)\<lparr> heap := heap (startApp False) @
           [asSingletonClass (Producer [''usersRepository''] False None) None] \<rparr>)
       [(''ordersService'', 14)])) ''ordersService'' = Some 15 \<and>
   deref (heap
     (registerDependencies
       ((startApp False)\<lparr> heap := heap (startApp False) @
           [asSingletonClass (Producer [''usersRepository''] False None) None] \<rparr>)
       [(''ordersService'', 14)])) 15 = asSingletonClass (Producer [''usersRepository''] False None) None"
  by code_simp

section \<open>The registered resolvers\<close>

text \<open>
  Claim C8, as the code has it. The three helpers put the lifetime \<^verbatim>\<open>"SINGLETON"\<close>,
  and \<^verbatim>\<open>asControllerClass\<close> the tags \<^verbatim>\<open>[CONTROLLER_TAG]\<close>, after the spread of the
  caller's options, so whatever the options say, the resolver has that lifetime and those
  tags as long as the constructor or function carries no lifetime, and no tags, among
  resolver options of its own. Where it does carry one, the library merges it last and the
  resolver has the producer's own lifetime or tags.
\<close>

theorem helpers_force_singleton_over_opts:
  "(map_of (spread (RESOLVER Type)) ''lifetime'' = None \<longrightarrow>
      map_of (asSingletonClass Type opts) ''lifetime'' = Some (Str ''SINGLETON'') \<and>
      map_of (asControllerClass Type opts) ''lifetime'' = Some (Str ''SINGLETON'')) \<and>
   (map_of (spread (RESOLVER fn)) ''lifetime'' = None \<longrightarrow>
      map_of (asSingletonFunction fn opts) ''lifetime'' = Some (Str ''SINGLETON'')) \<and>
   (map_of (spread (RESOLVER Type)) ''tags'' = None \<longrightarrow>
      map_of (asControllerClass Type opts) ''tags'' = Some (StrArr [CONTROLLER_TAG])) \<and>
   (map_of (spread (RESOLVER Type)) ''lifetime'' = Some v \<longrightarrow>
      map_of (asSingletonClass Type opts) ''lifetime'' = Some v \<and>
      map_of (asControllerClass Type opts) ''lifetime'' = Some v) \<and>
   (map_of (spread (RESOLVER fn)) ''lifetime'' = Some v \<longrightarrow>
      map_of (asSingletonFunction fn opts) ''lifetime'' = Some v) \<and>
   (map_of (spread (RESOLVER Type)) ''tags'' = Some t \<longrightarrow>
      map_of (asControllerClass Type opts) ''tags'' = Some t)"
  by (simp add: helper_lifetime helper_tags)

theorem helpers_force_singleton_over_opts_witness:
  "map_of (asSingletonClass UsersService (Some [(''lifetime'', Str ''TRANSIENT'')])) ''lifetime'' =
     Some (Str ''SINGLETON'') \<and>
   map_of (asControllerClass UsersController
             (Some [(''lifetime'', Str ''SCOPED''), (''tags'', StrArr [''mine''])])) ''lifetime'' =
     Some (Str ''SINGLETON'') \<and>
   map_of (asControllerClass UsersController
             (Some [(''lifetime'', Str ''SCOPED''), (''tags'', StrArr [''mine''])])) ''tags'' =
     Some (StrArr [CONTROLLER_TAG]) \<and>
   map_of (asSingletonFunction (Producer [''config''] False None)
             (Some [(''lifetime'', Str ''TRANSIENT'')])) ''lifetime'' =
     Some (Str ''SINGLETON'') \<and>
   map_of (asSingletonClass (Producer [] False (Some [(''lifetime'', Str ''SCOPED'')])) None) ''lifetime'' =
     Some (Str ''SCOPED'')"
proof -
  let ?o1 = "Some [(''lifetime'', Str ''TRANSIENT'')]"
  let ?o2 = "Some [(''lifetime'', Str ''SCOPED''), (''tags'', StrArr [''mine''])]"
  let ?f = "Producer [''config''] False None"
  let ?A = "Producer [] False (Some [(''lifetime'', Str ''SCOPED'')])"
  have n1: "map_of (spread (RESOLVER UsersService)) ''lifetime'' = None"
    by (simp add: UsersService_def)
  have n2: "map_of (spread (RESOLVER UsersController)) ''lifetime'' = None"
    "map_of (spread (RESOLVER UsersController)) ''tags'' = None"
    by (simp_all add: UsersController_def)
  have n3: "map_of (spread (RESOLVER ?f)) ''lifetime'' = None" by simp
  have s4: "map_of (spread (RESOLVER ?A)) ''lifetime'' = Some (Str ''SCOPED'')" by simp
  note a = helpers_force_singleton_over_opts
             [where Type=UsersService and opts="?o1", THEN conjunct1, rule_format, OF n1, THEN conjunct1]
  note b = helpers_force_singleton_over_opts
             [where Type=UsersController and opts="?o2", THEN conjunct1, rule_format, OF n2(1), THEN conjunct2]
  note c = helpers_force_singleton_over_opts
             [where Type=UsersController and opts="?o2", THEN conjunct2, THEN conjunct2, THEN conjunct1,
              rule_format, OF n2(2)]
  note d = helpers_force_singleton_over_opts
             [where fn="?f" and opts="?o1", THEN conjunct2, THEN conjunct1, rule_format, OF n3]
  note e = helpers_force_singleton_over_opts
             [where Type="?A" and opts=None and v="Str ''SCOPED''", THEN conjunct2, THEN conjunct2, THEN conjunct2,
              THEN conjunct1, rule_format, OF s4, THEN conjunct1]
  from a b c d e show ?thesis by (intro conjI)
qed

text \<open>
  Claim C8, as stated, fails: a class that carries the resolver option
  \<^verbatim>\<open>lifetime: "TRANSIENT"\<close> of its own gets a transient resolver from
  \<^verbatim>\<open>asSingletonClass\<close>, and one that carries a scoped lifetime and tags of its own gets
  a scoped resolver with those tags from \<^verbatim>\<open>asControllerClass\<close>.
\<close>

theorem helpers_lifetime_counterexample:
  "map_of (asSingletonClass (Producer [] False (Some [(''lifetime'', Str ''TRANSIENT'')])) None)
     ''lifetime'' = Some (Str ''TRANSIENT'') \<and>
   map_of (asControllerClass
             (Producer [] False (Some [(''lifetime'', Str ''SCOPED''), (''tags'', StrArr [''mine''])]))
             None) ''lifetime'' = Some (Str ''SCOPED'') \<and>
   map_of (asControllerClass
             (Producer [] False (Some [(''lifetime'', Str ''SCOPED''), (''tags'', StrArr [''mine''])]))
             None) ''tags'' = Some (StrArr [''mine''])"
  by code_simp

text \<open>
  Claim C7, on the code. The \<^verbatim>\<open>database\<close> dependency is built by
  \<^verbatim>\<open>asSingletonFunction\<close> without options: its resolver, and the copy of it that
  \<^verbatim>\<open>startApp\<close> registers, have the lifetime \<^verbatim>\<open>"SINGLETON"\<close> and the factory, and have
  neither a \<^verbatim>\<open>dispose\<close> nor an \<^verbatim>\<open>asyncDispose\<close> entry: the container has no disposer
  to call for the connection pool.
\<close>

theorem database_resolver_has_no_disposer:
  "map_of (resolveCoreDependencies env_invalid) ''database'' =
     Some (asSingletonFunction (Producer [''config''] False None) None) \<and>
   map_of (registrations (startApp env_invalid)) ''database'' = Some 7 \<and>
   deref (heap (startApp env_invalid)) 7 =
     asSingletonFunction (Producer [''config''] False None) None \<and>
   map_of (deref (heap (startApp env_invalid)) 7) ''lifetime'' = Some (Str ''SINGLETON'') \<and>
   map_of (deref (heap (startApp env_invalid)) 7) ''dispose'' = None \<and>
   map_of (deref (heap (startApp env_invalid)) 7) ''asyncDispose'' = None"
  by code_simp

section \<open>Resolution: the state only grows, and what is cached stays\<close>

lemma extends_refl: "extends uc st st"
  by (auto simp: extends_def)

lemma extends_trans:
  assumes "extends uc st st1" and "extends uc st1 st2"
  shows "extends uc st st2"
proof -
  from assms(1) obtain hn cn ln where 1: "registrations st1 = registrations st"
    "heap st1 = heap st @ hn" "cache st1 = cache st @ cn" "constructions st1 = constructions st @ ln"
    "\<forall>key \<in> fst ` set cn. key_name key \<notin> set uc" "\<forall>m \<in> fst ` set ln. m \<notin> set uc"
    unfolding extends_def by blast
  from assms(2) obtain hn' cn' ln' where 2: "registrations st2 = registrations st1"
    "heap st2 = heap st1 @ hn'" "cache st2 = cache st1 @ cn'"
    "constructions st2 = constructions st1 @ ln'"
    "\<forall>key \<in> fst ` set cn'. key_name key \<notin> set uc" "\<forall>m \<in> fst ` set ln'. m \<notin> set uc"
    unfolding extends_def by blast
  from 1 2 have "registrations st2 = registrations st"
    "heap st2 = heap st @ (hn @ hn')" "cache st2 = cache st @ (cn @ cn')"
    "constructions st2 = constructions st @ (ln @ ln')"
    "\<forall>key \<in> fst ` set (cn @ cn'). key_name key \<notin> set uc"
    "\<forall>m \<in> fst ` set (ln @ ln'). m \<notin> set uc"
    by auto
  then show ?thesis unfolding extends_def by blast
qed

lemma extends_weaken: "extends (n # uc) st st' \<Longrightarrow> extends uc st st'"
  unfolding extends_def by fastforce

lemma key_name_cache_key_of: "cache_key_of l scope n = Some key \<Longrightarrow> key_name key = n"
  by (cases l) auto

lemma extends_construct:
  "n \<notin> set uc \<Longrightarrow> construct l scope n inst st = (a, st') \<Longrightarrow> extends uc st st'"
  unfolding extends_def construct_def Let_def
  by (cases "cache_key_of l scope n") (auto dest: key_name_cache_key_of)

lemma resolve_extends:
  "resolve_in reg scope uc n st = (r, st') \<Longrightarrow> extends uc st st'"
  "resolve_reads reg scope uc ns st = (rs, st') \<Longrightarrow> extends uc st st'"
proof (induction reg scope uc n st and reg scope uc ns st arbitrary: r st' and rs st'
       rule: resolve_in_resolve_reads.induct)
  case (1 reg scope uc n st)
  show ?case
  proof (cases "map_of reg n")
    case None
    with "1.prems" show ?thesis by (simp add: extends_refl)
  next
    case (Some d)
    note d = this
    show ?thesis
    proof (cases "n \<in> set uc")
      case True
      with d "1.prems" show ?thesis by (simp add: extends_refl)
    next
      case False
      note nuc = this
      show ?thesis
      proof (cases "cached (lifetime_of d) scope n st")
        case (Some v)
        with d nuc "1.prems" show ?thesis by (simp add: extends_refl)
      next
        case None
        note nc = this
        show ?thesis
        proof (cases "producer_of d")
          case None
          with d nuc nc "1.prems" show ?thesis by (simp add: extends_refl)
        next
          case (Some p)
          note p = this
          obtain rr st1 where rr: "resolve_reads reg scope (n # uc) (reads p) st = (rr, st1)"
            by (cases "resolve_reads reg scope (n # uc) (reads p) st")
          from "1.IH" [OF d nuc nc p rr] have e1: "extends uc st st1" by (rule extends_weaken)
          show ?thesis
          proof (cases rr)
            case (Inl e)
            with d nuc nc p rr "1.prems" e1 show ?thesis by simp
          next
            case (Inr vs)
            show ?thesis
            proof (cases "throws p")
              case True
              with Inr d nuc nc p rr "1.prems" e1 show ?thesis by simp
            next
              case False
              obtain a st2 where c: "construct (lifetime_of d) scope n (zip (reads p) (map Ref vs)) st1 = (a, st2)"
                by (cases "construct (lifetime_of d) scope n (zip (reads p) (map Ref vs)) st1")
              from extends_construct [OF nuc c] e1 have "extends uc st st2" by (rule extends_trans [rotated])
              with False Inr d nuc nc p rr c "1.prems" show ?thesis by simp
            qed
          qed
        qed
      qed
    qed
  qed
next
  case (2 reg scope uc st)
  then show ?case by (simp add: extends_refl)
next
  case (3 reg scope uc n ns st)
  obtain r1 st1 where r1: "resolve_in reg scope uc n st = (r1, st1)"
    by (cases "resolve_in reg scope uc n st")
  from "3.IH"(1) [OF r1] have e1: "extends uc st st1" .
  show ?case
  proof (cases r1)
    case (Inl e)
    with r1 "3.prems" e1 show ?thesis by simp
  next
    case (Inr v)
    obtain r2 st2 where r2: "resolve_reads reg scope uc ns st1 = (r2, st2)"
      by (cases "resolve_reads reg scope uc ns st1")
    from "3.IH"(2) [OF r1 [symmetric] Inr r2] have e2: "extends uc st1 st2" .
    from e1 e2 have "extends uc st st2" by (rule extends_trans)
    with Inr r1 r2 "3.prems" show ?thesis by (cases r2) auto
  qed
qed

lemma extends_cache_keeps:
  "extends uc st st' \<Longrightarrow> map_of (cache st) key = Some v \<Longrightarrow> map_of (cache st') key = Some v"
  unfolding extends_def by (auto simp: map_add_def)

lemma extends_cache_fresh:
  "extends uc st st' \<Longrightarrow> map_of (cache st) key = None \<Longrightarrow> key_name key \<in> set uc \<Longrightarrow>
   map_of (cache st') key = None"
proof -
  assume e: "extends uc st st'" and f: "map_of (cache st) key = None" and k: "key_name key \<in> set uc"
  from e obtain cn where cn: "cache st' = cache st @ cn"
    "\<forall>key \<in> fst ` set cn. key_name key \<notin> set uc"
    unfolding extends_def by blast
  from cn(2) k have "key \<notin> fst ` set cn" by blast
  then have "map_of cn key = None" by (simp add: map_of_eq_None_iff)
  with f cn(1) show ?thesis by (simp add: map_add_def)
qed

lemma extends_constructions_fresh:
  assumes "extends uc st st'" and "n \<in> set uc"
  shows "filter (\<lambda>e. fst e = n) (constructions st') = filter (\<lambda>e. fst e = n) (constructions st)"
proof -
  from assms(1) obtain ln where ln: "constructions st' = constructions st @ ln"
    "\<forall>m \<in> fst ` set ln. m \<notin> set uc"
    unfolding extends_def by blast
  from ln(2) assms(2) have "filter (\<lambda>e. fst e = n) ln = []"
    by (auto simp: filter_empty_conv)
  with ln(1) show ?thesis by simp
qed

lemma extends_heap_length: "extends uc st st' \<Longrightarrow> length (heap st) \<le> length (heap st')"
  unfolding extends_def by auto

lemma extends_deref: "extends uc st st' \<Longrightarrow> a < length (heap st) \<Longrightarrow> deref (heap st') a = deref (heap st) a"
  unfolding extends_def by (auto simp: deref_def nth_append)

lemma resolve_in_caches:
  assumes "resolve_in reg scope uc n st = (Inr v, st')"
    and "map_of reg n = Some d"
    and "cache_key_of (lifetime_of d) scope n = Some key"
  shows "map_of (cache st') key = Some v"
proof -
  from assms(1,2) have nuc: "n \<notin> set uc" by (auto split: if_splits)
  show ?thesis
  proof (cases "cached (lifetime_of d) scope n st")
    case (Some v')
    with assms nuc show ?thesis by (simp add: cached_def)
  next
    case None
    note nc = this
    with assms(3) have fresh: "map_of (cache st) key = None" by (simp add: cached_def)
    from assms(1,2) nuc nc obtain p where p: "producer_of d = Some p"
      by (cases "producer_of d") auto
    obtain rr st1 where rr: "resolve_reads reg scope (n # uc) (reads p) st = (rr, st1)"
      by (cases "resolve_reads reg scope (n # uc) (reads p) st")
    from assms(1,2) nuc nc p rr obtain vs where vs: "rr = Inr vs" and nt: "\<not> throws p"
      by (cases rr) (auto split: if_splits)
    from rr have "extends (n # uc) st st1" by (rule resolve_extends(2))
    moreover from assms(3) have "key_name key = n" by (rule key_name_cache_key_of)
    ultimately have f1: "map_of (cache st1) key = None"
      using fresh by (intro extends_cache_fresh [of "n # uc" st st1]) auto
    from assms(1,2) nuc nc p rr vs nt
    have "construct (lifetime_of d) scope n (zip (reads p) (map Ref vs)) st1 = (v, st')"
      by (auto split: prod.splits)
    with assms(3) f1 show ?thesis
      by (auto simp: construct_def Let_def map_add_def)
  qed
qed

lemma resolve_in_cached:
  assumes "map_of reg n = Some d"
    and "cache_key_of (lifetime_of d) scope n = Some key"
    and "map_of (cache st) key = Some v"
  shows "resolve_in reg scope [] n st = (Inr v, st)"
  using assms by (simp add: cached_def)

lemma map_of_descriptors:
  "map_of (descriptors w) n = map_option (deref (heap w)) (map_of (registrations w) n)"
  unfolding descriptors_def by (induction "registrations w" arbitrary: w) (auto simp: map_of_map split: prod.splits)

text \<open>A construction keeps every singleton built once, given that its own name was not built before.\<close>

lemma built_once_construct:
  assumes b: "built_once reg st1"
    and d: "map_of reg n = Some d"
    and fresh: "lifetime_of d = Singleton \<Longrightarrow>
                  filter (\<lambda>e. fst e = n) (constructions st1) = [] \<and>
                  map_of (cache st1) (SingletonKey n) = None"
    and c: "construct (lifetime_of d) scope n inst st1 = (a, st2)"
  shows "built_once reg st2"
  unfolding built_once_def
proof (intro allI impI, elim conjE)
  fix m dm
  assume m: "map_of reg m = Some dm" and lm: "lifetime_of dm = Singleton"
  from b m lm have bm: "length (filter (\<lambda>e. fst e = m) (constructions st1)) \<le> 1"
    "\<And>x. (m, x) \<in> set (constructions st1) \<longleftrightarrow> map_of (cache st1) (SingletonKey m) = Some x"
    unfolding built_once_def by blast+
  from c have log: "constructions st2 = constructions st1 @ [(n, a)]"
    by (auto simp: construct_def Let_def)
  show "length (filter (\<lambda>e. fst e = m) (constructions st2)) \<le> 1 \<and>
        (\<forall>x. (m, x) \<in> set (constructions st2) \<longleftrightarrow> map_of (cache st2) (SingletonKey m) = Some x)"
  proof (cases "m = n")
    case True
    with m d have "dm = d" by simp
    with lm have ld: "lifetime_of d = Singleton" by simp
    from fresh [OF ld] have f: "filter (\<lambda>e. fst e = n) (constructions st1) = []"
      "map_of (cache st1) (SingletonKey n) = None" by simp_all
    from c ld f(2) have ca: "map_of (cache st2) (SingletonKey n) = Some a"
      by (auto simp: construct_def Let_def map_add_def)
    from f(1) have "\<And>x. (n, x) \<notin> set (constructions st1)"
      by (auto simp: filter_empty_conv)
    with log f(1) ca True show ?thesis by auto
  next
    case False
    have ne: "key \<noteq> SingletonKey m" if "cache_key_of (lifetime_of d) scope n = Some key" for key
      using key_name_cache_key_of [OF that] False by auto
    from c have "map_of (cache st2) (SingletonKey m) = map_of (cache st1) (SingletonKey m)"
      by (cases "cache_key_of (lifetime_of d) scope n")
         (auto simp: construct_def Let_def map_add_def dest: ne split: option.splits)
    with log False bm show ?thesis by auto
  qed
qed

lemma resolve_built_once:
  "built_once reg st \<Longrightarrow> resolve_in reg scope uc n st = (r, st') \<Longrightarrow> built_once reg st'"
  "built_once reg st \<Longrightarrow> resolve_reads reg scope uc ns st = (rs, st') \<Longrightarrow> built_once reg st'"
proof (induction reg scope uc n st and reg scope uc ns st arbitrary: r st' and rs st'
       rule: resolve_in_resolve_reads.induct)
  case (1 reg scope uc n st)
  note b = "1.prems"(1) and res = "1.prems"(2)
  show ?case
  proof (cases "map_of reg n")
    case None
    with b res show ?thesis by simp
  next
    case (Some d)
    note d = this
    show ?thesis
    proof (cases "n \<in> set uc")
      case True
      with d b res show ?thesis by simp
    next
      case False
      note nuc = this
      show ?thesis
      proof (cases "cached (lifetime_of d) scope n st")
        case (Some v)
        with d nuc b res show ?thesis by simp
      next
        case None
        note nc = this
        show ?thesis
        proof (cases "producer_of d")
          case None
          with d nuc nc b res show ?thesis by simp
        next
          case (Some p)
          note p = this
          obtain rr st1 where rr: "resolve_reads reg scope (n # uc) (reads p) st = (rr, st1)"
            by (cases "resolve_reads reg scope (n # uc) (reads p) st")
          from "1.IH" [OF d nuc nc p b rr] have b1: "built_once reg st1" .
          from rr have e1: "extends (n # uc) st st1" by (rule resolve_extends(2))
          show ?thesis
          proof (cases rr)
            case (Inl e)
            with d nuc nc p rr res b1 show ?thesis by simp
          next
            case (Inr vs)
            show ?thesis
            proof (cases "throws p")
              case True
              with Inr d nuc nc p rr res b1 show ?thesis by simp
            next
              case False
              obtain a st2 where c: "construct (lifetime_of d) scope n (zip (reads p) (map Ref vs)) st1 = (a, st2)"
                by (cases "construct (lifetime_of d) scope n (zip (reads p) (map Ref vs)) st1")
              have fresh: "filter (\<lambda>e. fst e = n) (constructions st1) = [] \<and>
                           map_of (cache st1) (SingletonKey n) = None"
                if ld: "lifetime_of d = Singleton"
              proof -
                from nc ld have c0: "map_of (cache st) (SingletonKey n) = None"
                  by (simp add: cached_def)
                with b d ld have "\<And>x. (n, x) \<notin> set (constructions st)"
                  unfolding built_once_def by (metis option.distinct(1))
                then have "filter (\<lambda>e. fst e = n) (constructions st) = []"
                  by (auto simp: filter_empty_conv)
                with extends_constructions_fresh [OF e1, of n]
                have "filter (\<lambda>e. fst e = n) (constructions st1) = []" by simp
                moreover from extends_cache_fresh [OF e1 c0]
                have "map_of (cache st1) (SingletonKey n) = None" by simp
                ultimately show ?thesis by simp
              qed
              from built_once_construct [OF b1 d fresh c] have "built_once reg st2" by simp
              with False Inr d nuc nc p rr c res show ?thesis by simp
            qed
          qed
        qed
      qed
    qed
  qed
next
  case (2 reg scope uc st)
  then show ?case by simp
next
  case (3 reg scope uc n ns st)
  obtain r1 st1 where r1: "resolve_in reg scope uc n st = (r1, st1)"
    by (cases "resolve_in reg scope uc n st")
  from "3.IH"(1) [OF "3.prems"(1) r1] have b1: "built_once reg st1" .
  show ?case
  proof (cases r1)
    case (Inl e)
    with r1 "3.prems" b1 show ?thesis by simp
  next
    case (Inr v)
    obtain r2 st2 where r2: "resolve_reads reg scope uc ns st1 = (r2, st2)"
      by (cases "resolve_reads reg scope uc ns st1")
    from "3.IH"(2) [OF r1 [symmetric] Inr b1 r2] have "built_once reg st2" .
    with Inr r1 r2 "3.prems" show ?thesis by (cases r2) auto
  qed
qed

lemma resolve_frame:
  assumes "resolve w scope n = (r, w')"
  shows "extends [] w w'"
  using assms unfolding resolve_def by (rule resolve_extends(1))

lemma later_descriptors:
  assumes "wf_world w" and "extends [] w w'"
  shows "descriptors w' = descriptors w" and "wf_world w'"
proof -
  from assms(2) have r: "registrations w' = registrations w" by (simp add: extends_def)
  from assms(1) have lt: "\<forall>(k, a) \<in> set (registrations w). a < length (heap w)"
    by (simp add: wf_world_def list_all_iff)
  from assms(2) have d: "\<And>a. a < length (heap w) \<Longrightarrow> deref (heap w') a = deref (heap w) a"
    by (auto dest: extends_deref)
  from lt d show "descriptors w' = descriptors w"
    unfolding descriptors_def r by (auto split: prod.splits)
  from assms(2) have "length (heap w) \<le> length (heap w')" by (auto dest: extends_heap_length)
  with lt show "wf_world w'"
    unfolding wf_world_def r list_all_iff by fastforce
qed

lemma resolve_many_frame:
  assumes "wf_world w"
  shows "extends [] w (resolve_many w qs) \<and>
         descriptors (resolve_many w qs) = descriptors w \<and> wf_world (resolve_many w qs)"
  using assms
proof (induction qs arbitrary: w)
  case Nil
  then show ?case by (simp add: extends_refl)
next
  case (Cons q qs)
  obtain scope n where q: "q = (scope, n)" by (cases q)
  obtain r w1 where r: "resolve w scope n = (r, w1)" by (cases "resolve w scope n")
  note f = resolve_frame [OF r]
  note l = later_descriptors [OF Cons.prems f]
  from Cons.IH [OF l(2)] f l show ?case
    using q r by (auto intro: extends_trans)
qed

lemma resolve_many_built_once:
  assumes "wf_world w" and "built_once (descriptors w) w"
  shows "built_once (descriptors w) (resolve_many w qs)"
  using assms
proof (induction qs arbitrary: w)
  case Nil
  then show ?case by simp
next
  case (Cons q qs)
  obtain scope n where q: "q = (scope, n)" by (cases q)
  obtain r w1 where r: "resolve w scope n = (r, w1)" by (cases "resolve w scope n")
  note l = later_descriptors [OF Cons.prems(1) resolve_frame [OF r]]
  from r have "resolve_in (descriptors w) scope [] n w = (r, w1)" by (simp add: resolve_def)
  from resolve_built_once(1) [OF Cons.prems(2) this] have "built_once (descriptors w) w1" .
  with l have "built_once (descriptors w1) w1" by simp
  from Cons.IH [OF l(2) this] l q r show ?case by simp
qed

lemma lifetime_of_helpers:
  assumes "map_of (spread (RESOLVER P)) ''lifetime'' = None"
  shows "lifetime_of (asSingletonClass P opts) = Singleton"
    and "lifetime_of (asControllerClass P opts) = Singleton"
    and "lifetime_of (asSingletonFunction P opts) = Singleton"
  using assms by (simp_all add: lifetime_of_def helper_lifetime)

lemma resolve_cached_singleton:
  assumes "map_of (descriptors w) n = Some d" and "lifetime_of d = Singleton"
    and "map_of (cache w) (SingletonKey n) = Some v"
  shows "resolve w scope n = (Inr v, w)"
proof -
  from assms(2) have "cache_key_of (lifetime_of d) scope n = Some (SingletonKey n)" by simp
  from resolve_in_cached [OF assms(1) this, of w v] assms(3)
  show ?thesis by (simp add: resolve_def)
qed

lemma resolve_singleton_caches:
  assumes "map_of (descriptors w) n = Some d" and "lifetime_of d = Singleton"
    and "resolve w scope n = (Inr v, w1)"
  shows "map_of (cache w1) (SingletonKey n) = Some v"
proof -
  from assms(3) have "resolve_in (descriptors w) scope [] n w = (Inr v, w1)"
    by (simp add: resolve_def)
  from resolve_in_caches [OF this assms(1)] assms(2) show ?thesis by simp
qed

lemma singleton_stays:
  assumes wf: "wf_world w" and d: "map_of (descriptors w) n = Some d"
    and l: "lifetime_of d = Singleton" and c: "map_of (cache w) (SingletonKey n) = Some v"
  shows "resolve (resolve_many w qs) scope n = (Inr v, resolve_many w qs)"
proof -
  note m = resolve_many_frame [OF wf, of qs]
  from m d have d2: "map_of (descriptors (resolve_many w qs)) n = Some d" by simp
  from m c have c2: "map_of (cache (resolve_many w qs)) (SingletonKey n) = Some v"
    by (auto dest: extends_cache_keeps)
  from d2 l c2 show ?thesis by (rule resolve_cached_singleton)
qed

text \<open>
  Claim C1, as the code has it. In a container in which nothing has been resolved yet, take
  a name whose registered resolver has the lifetime \<^verbatim>\<open>"SINGLETON"\<close>, as every resolver
  has that one of the three helpers builds from a producer without a lifetime option of its
  own. After any sequence of resolutions, of any names in any scopes, at most one instance
  has been constructed for the name, whether it was asked for or built as a dependency of
  another; once one has been constructed, every resolution of the name returns that
  instance and leaves the container as it is; and whenever a resolution of the name returns
  an instance, it is the one constructed, and the next resolution and every later one, after
  any further resolutions, return the same.
\<close>

theorem singleton_built_once:
  assumes "wf_world w" and "cache w = []" and "constructions w = []"
    and "map_of (registrations w) n = Some r"
    and "lifetime_of (deref (heap w) r) = Singleton \<or>
         (map_of (spread (RESOLVER P)) ''lifetime'' = None \<and>
          (deref (heap w) r = asSingletonClass P opts \<or>
           deref (heap w) r = asControllerClass P opts \<or>
           deref (heap w) r = asSingletonFunction P opts))"
  shows "length (filter (\<lambda>e. fst e = n) (constructions (resolve_many w qs))) \<le> 1 \<and>
         (\<forall>a. (n, a) \<in> set (constructions (resolve_many w qs)) \<longrightarrow>
                resolve (resolve_many w qs) scope n = (Inr a, resolve_many w qs)) \<and>
         (\<forall>v w1. resolve (resolve_many w qs) scope n = (Inr v, w1) \<longrightarrow>
                (n, v) \<in> set (constructions w1) \<and>
                resolve w1 scope' n = (Inr v, w1) \<and>
                (\<forall>qs'. resolve (resolve_many w1 qs') scope'' n = (Inr v, resolve_many w1 qs')))"
proof -
  let ?d = "deref (heap w) r"
  let ?w' = "resolve_many w qs"
  from assms(4) have d: "map_of (descriptors w) n = Some ?d" by (simp add: map_of_descriptors)
  from assms(5) have l: "lifetime_of ?d = Singleton" by (auto simp: lifetime_of_helpers)
  from assms(2,3) have b0: "built_once (descriptors w) w" by (simp add: built_once_def)
  note m = resolve_many_frame [OF assms(1), of qs]
  from m have wf': "wf_world ?w'" and ds': "descriptors ?w' = descriptors w" by simp_all
  from d ds' have d': "map_of (descriptors ?w') n = Some ?d" by simp
  from resolve_many_built_once [OF assms(1) b0, of qs] have b': "built_once (descriptors w) ?w'" .
  with d l have once: "length (filter (\<lambda>e. fst e = n) (constructions ?w')) \<le> 1"
    and iff: "\<And>a. (n, a) \<in> set (constructions ?w') \<longleftrightarrow> map_of (cache ?w') (SingletonKey n) = Some a"
    unfolding built_once_def by blast+
  have built: "\<forall>a. (n, a) \<in> set (constructions ?w') \<longrightarrow> resolve ?w' scope n = (Inr a, ?w')"
    using iff d' l by (auto intro: resolve_cached_singleton)
  have later: "\<forall>v w1. resolve ?w' scope n = (Inr v, w1) \<longrightarrow>
                (n, v) \<in> set (constructions w1) \<and>
                resolve w1 scope' n = (Inr v, w1) \<and>
                (\<forall>qs'. resolve (resolve_many w1 qs') scope'' n = (Inr v, resolve_many w1 qs'))"
  proof (intro allI impI)
    fix v w1
    assume r: "resolve ?w' scope n = (Inr v, w1)"
    from d' l r have c1: "map_of (cache w1) (SingletonKey n) = Some v"
      by (rule resolve_singleton_caches)
    note l1 = later_descriptors [OF wf' resolve_frame [OF r]]
    from d' l1 have d1: "map_of (descriptors w1) n = Some ?d" by simp
    from r have "resolve_in (descriptors ?w') scope [] n ?w' = (Inr v, w1)" by (simp add: resolve_def)
    with b' ds' have "built_once (descriptors w) w1" by (auto dest: resolve_built_once(1))
    with d l c1 have "(n, v) \<in> set (constructions w1)" unfolding built_once_def by blast
    moreover have "resolve w1 scope' n = (Inr v, w1)"
      using d1 l c1 by (rule resolve_cached_singleton)
    moreover have "\<forall>qs'. resolve (resolve_many w1 qs') scope'' n = (Inr v, resolve_many w1 qs')"
      using singleton_stays [OF l1(2) d1 l c1] by blast
    ultimately show "(n, v) \<in> set (constructions w1) \<and>
                resolve w1 scope' n = (Inr v, w1) \<and>
                (\<forall>qs'. resolve (resolve_many w1 qs') scope'' n = (Inr v, resolve_many w1 qs'))"
      by blast
  qed
  from once built later show ?thesis by blast
qed

theorem singleton_built_once_witness:
  "wf_world (startApp False) \<and> cache (startApp False) = [] \<and> constructions (startApp False) = [] \<and>
   map_of (registrations (startApp False)) ''usersService'' = Some 13 \<and>
   deref (heap (startApp False)) 13 = asSingletonClass UsersService None \<and>
   map_of (spread (RESOLVER UsersService)) ''lifetime'' = None \<and>
   length (filter (\<lambda>e. fst e = ''usersService'')
             (constructions (resolve_many (startApp False) [(None, ''usersController'')]))) \<le> 1 \<and>
   (''usersService'', 17) \<in>
     set (constructions (resolve_many (startApp False) [(None, ''usersController'')])) \<and>
   resolve (resolve_many (startApp False) [(None, ''usersController'')]) (Some 1) ''usersService'' =
     (Inr 17, resolve_many (startApp False) [(None, ''usersController'')])"
proof -
  let ?w = "startApp False"
  let ?qs = "[(None :: nat option, ''usersController'')]"
  have wf: "wf_world ?w" by code_simp
  have c: "cache ?w = []" by code_simp
  have k: "constructions ?w = []" by code_simp
  have reg: "map_of (registrations ?w) ''usersService'' = Some 13" by code_simp
  have h: "deref (heap ?w) 13 = asSingletonClass UsersService None" by code_simp
  have p: "map_of (spread (RESOLVER UsersService)) ''lifetime'' = None"
    by (simp add: UsersService_def)
  have mem: "(''usersService'', 17) \<in> set (constructions (resolve_many ?w ?qs))" by code_simp
  note t = singleton_built_once
             [OF wf c k reg disjI2 [OF conjI [OF p disjI1 [OF h]]],
              where qs = "?qs" and scope = "Some 1"]
  note t1 = t [THEN conjunct1]
  note t2 = t [THEN conjunct2, THEN conjunct1, rule_format, OF mem]
  from wf c k reg h p t1 mem t2 show ?thesis by (intro conjI)
qed

text \<open>
  Claim C1, as stated, fails: a class that carries the resolver option
  \<^verbatim>\<open>lifetime: "TRANSIENT"\<close> of its own is registered through \<^verbatim>\<open>asSingletonClass\<close>;
  two resolutions of its name, one after the other, construct and return two instances.
\<close>

theorem singleton_counterexample:
  "fst (resolve
         (registerDependencies
            (createContainer
               [asSingletonClass (Producer [] False (Some [(''lifetime'', Str ''TRANSIENT'')])) None])
            [(''annotated'', 0)])
         None ''annotated'') = Inr 2 \<and>
   fst (resolve
         (snd (resolve
            (registerDependencies
               (createContainer
                  [asSingletonClass (Producer [] False (Some [(''lifetime'', Str ''TRANSIENT'')])) None])
               [(''annotated'', 0)])
            None ''annotated''))
         None ''annotated'') = Inr 3 \<and>
   constructions
     (snd (resolve
        (snd (resolve
           (registerDependencies
              (createContainer
                 [asSingletonClass (Producer [] False (Some [(''lifetime'', Str ''TRANSIENT'')])) None])
              [(''annotated'', 0)])
           None ''annotated''))
        None ''annotated'')) = [(''annotated'', 2), (''annotated'', 3)]"
  by code_simp







section \<open>Properties of the error handler\<close>

text \<open>
  Claim C10. For an error that is not a \<^verbatim>\<open>PublicNonRecoverableError\<close> the handler replies
  with status 500 and the fixed payload, so the replies to two such errors are the same and
  nothing of the error reaches the body; a \<^verbatim>\<open>PublicNonRecoverableError\<close> is answered with
  its own status code (500 when it has none), message, error code and details.
\<close>

theorem errorHandler_response:
  "(\<not> isPublicNonRecoverableError e \<longrightarrow>
      reply_status (errorHandler isPublicNonRecoverableError isInternalError e s) = Some 500 \<and>
      reply_sent (errorHandler isPublicNonRecoverableError isInternalError e s) =
        Some \<lparr> p_message = ''Internal server error'',
               p_errorCode = ''INTERNAL_SERVER_ERROR'',
               p_details = None \<rparr>) \<and>
   (\<not> isPublicNonRecoverableError e \<and> \<not> isPublicNonRecoverableError e' \<longrightarrow>
      reply_status (errorHandler isPublicNonRecoverableError isInternalError e s) =
        reply_status (errorHandler isPublicNonRecoverableError isInternalError e' s') \<and>
      reply_sent (errorHandler isPublicNonRecoverableError isInternalError e s) =
        reply_sent (errorHandler isPublicNonRecoverableError isInternalError e' s')) \<and>
   (isPublicNonRecoverableError e \<longrightarrow>
      reply_status (errorHandler isPublicNonRecoverableError isInternalError e s) =
        Some (case httpStatusCode e of Some c \<Rightarrow> c | None \<Rightarrow> 500) \<and>
      reply_sent (errorHandler isPublicNonRecoverableError isInternalError e s) =
        Some \<lparr> p_message = error_message e,
               p_errorCode = errorCode e,
               p_details = details e \<rparr>)"
  by (simp add: errorHandler_def resolveResponseObject_def Let_def)


theorem errorHandler_response_witness:
  "reply_status (errorHandler (\<lambda>e. error_name e = ''PublicNonRecoverableError'') (\<lambda>e. False)
      \<lparr> error_name = ''Error'', error_message = ''connection refused'', error_stack = '''',
        errorCode = ''DB_DOWN'', httpStatusCode = Some 503, details = Some [(''host'', Str ''db1'')] \<rparr>
      \<lparr> request_log = [], app_log = [], reply_status = None, reply_sent = None \<rparr>) = Some 500 \<and>
   reply_sent (errorHandler (\<lambda>e. error_name e = ''PublicNonRecoverableError'') (\<lambda>e. False)
      \<lparr> error_name = ''Error'', error_message = ''connection refused'', error_stack = '''',
        errorCode = ''DB_DOWN'', httpStatusCode = Some 503, details = Some [(''host'', Str ''db1'')] \<rparr>
      \<lparr> request_log = [], app_log = [], reply_status = None, reply_sent = None \<rparr>) =
     Some \<lparr> p_message = ''Internal server error'', p_errorCode = ''INTERNAL_SERVER_ERROR'', p_details = None \<rparr> \<and>
   reply_status (errorHandler (\<lambda>e. error_name e = ''PublicNonRecoverableError'') (\<lambda>e. False)
      \<lparr> error_name = ''PublicNonRecoverableError'', error_message = ''User not found'', error_stack = '''',
        errorCode = ''USER_NOT_FOUND'', httpStatusCode = Some 404, details = None \<rparr>
      \<lparr> request_log = [], app_log = [], reply_status = None, reply_sent = None \<rparr>) = Some 404 \<and>
   reply_sent (errorHandler (\<lambda>e. error_name e = ''PublicNonRecoverableError'') (\<lambda>e. False)
      \<lparr> error_name = ''PublicNonRecoverableError'', error_message = ''User not found'', error_stack = '''',
        errorCode = ''USER_NOT_FOUND'', httpStatusCode = Some 404, details = None \<rparr>
      \<lparr> request_log = [], app_log = [], reply_status = None, reply_sent = None \<rparr>) =
     Some \<lparr> p_message = ''User not found'', p_errorCode = ''USER_NOT_FOUND'', p_details = None \<rparr>"
proof -
  let ?pub = "\<lambda>e. error_name e = ''PublicNonRecoverableError''"
  let ?e1 = "\<lparr> error_name = ''Error'', error_message = ''connection refused'', error_stack = '''',
        errorCode = ''DB_DOWN'', httpStatusCode = Some 503, details = Some [(''host'', Str ''db1'')] \<rparr>"
  let ?e2 = "\<lparr> error_name = ''PublicNonRecoverableError'', error_message = ''User not found'', error_stack = '''',
        errorCode = ''USER_NOT_FOUND'', httpStatusCode = Some 404, details = None \<rparr>"
  let ?s = "\<lparr> request_log = [], app_log = [], reply_status = None, reply_sent = None \<rparr>"
  have n1: "\<not> ?pub ?e1" by simp
  have p2: "?pub ?e2" by simp
  note a = errorHandler_response [of ?pub ?e1 "\<lambda>e. False" ?s, THEN conjunct1, rule_format, OF n1]
  note b = errorHandler_response [of ?pub ?e2 "\<lambda>e. False" ?s, THEN conjunct2, THEN conjunct2, rule_format, OF p2]
  have c: "(case httpStatusCode ?e2 of Some c \<Rightarrow> c | None \<Rightarrow> 500) = 404" by simp
  have d: "error_message ?e2 = ''User not found''" "errorCode ?e2 = ''USER_NOT_FOUND''" "details ?e2 = None"
    by simp_all
  from a b show ?thesis unfolding c d by (intro conjI) (erule conjunct1 conjunct2)+
qed

end
